theory Spec2Isabelle
  imports Complex_Main "HOL-Library.Word"
begin

section \<open>The number system of the program\<close>

text \<open>
  \<^verbatim>\<open>black_scholes.py\<close> computes on JAX floating-point scalars. The arithmetic
  operators and the routines \<^verbatim>\<open>jnp.log\<close>, \<^verbatim>\<open>jnp.sqrt\<close>, \<^verbatim>\<open>jnp.exp\<close>,
  \<^verbatim>\<open>norm.cdf\<close> and Python's \<^verbatim>\<open>round\<close> are not defined in the repository: they
  come from the language and from JAX. The embedding therefore takes them as the fields
  of a record over an arbitrary carrier \<open>'a\<close>. Every operation is a total function on
  the carrier, as the floating-point operations are (a division by zero yields an
  infinity or a NaN, which are values, and raises nothing). A statement proved for an
  arbitrary record holds for every number system, the machine's included.
\<close>

record 'a fp =
  flit :: "int \<Rightarrow> 'a"              \<comment> \<open>a numeric literal such as \<^verbatim>\<open>2\<close>, \<^verbatim>\<open>0.\<close>, \<^verbatim>\<open>10.\<close>\<close>
  fadd :: "'a \<Rightarrow> 'a \<Rightarrow> 'a"          \<comment> \<open>\<^verbatim>\<open>x + y\<close>\<close>
  fsub :: "'a \<Rightarrow> 'a \<Rightarrow> 'a"          \<comment> \<open>\<^verbatim>\<open>x - y\<close>\<close>
  fmul :: "'a \<Rightarrow> 'a \<Rightarrow> 'a"          \<comment> \<open>\<^verbatim>\<open>x * y\<close>\<close>
  fdiv :: "'a \<Rightarrow> 'a \<Rightarrow> 'a"          \<comment> \<open>\<^verbatim>\<open>x / y\<close>\<close>
  fneg :: "'a \<Rightarrow> 'a"                \<comment> \<open>\<^verbatim>\<open>-x\<close>\<close>
  fpow :: "'a \<Rightarrow> nat \<Rightarrow> 'a"         \<comment> \<open>\<^verbatim>\<open>x ** n\<close> for a literal exponent\<close>
  flog :: "'a \<Rightarrow> 'a"                \<comment> \<open>\<^verbatim>\<open>jnp.log\<close>\<close>
  fsqrt :: "'a \<Rightarrow> 'a"               \<comment> \<open>\<^verbatim>\<open>jnp.sqrt\<close>\<close>
  fexp :: "'a \<Rightarrow> 'a"                \<comment> \<open>\<^verbatim>\<open>jnp.exp\<close>\<close>
  fcdf :: "'a \<Rightarrow> 'a"                \<comment> \<open>\<^verbatim>\<open>jax.scipy.stats.norm.cdf\<close>\<close>
  fround :: "'a \<Rightarrow> nat \<Rightarrow> 'a"       \<comment> \<open>\<^verbatim>\<open>round(x, ndigits)\<close>\<close>

text \<open>The outcome of a call is an exception or a value.\<close>

datatype exn = ValueError | RuntimeError | ZeroDivisionError | OverflowError

text \<open>
  \<^verbatim>\<open>@jax.jit\<close> traces the function on JAX scalars: the floats on the carrier, \<^verbatim>\<open>mode\<close> on
  32-bit integers in two's complement (\<open>sint\<close> reads the signed value).
\<close>

type_synonym int32 = "32 word"

section \<open>The pricing kernel\<close>

text \<open>
  Lines 43 to 49 of \<^verbatim>\<open>black_scholes\<close>, operator by operator, with Python's
  precedence: \<^verbatim>\<open>-r * T\<close> is \<open>(-r) * T\<close>, \<^verbatim>\<open>a * b * c\<close> is \<open>(a * b) * c\<close> and
  \<^verbatim>\<open>a - b + c\<close> is \<open>(a - b) + c\<close>. The body has no \<^verbatim>\<open>raise\<close> and no test of its
  arguments, so every call returns. \<^verbatim>\<open>jax.lax.cond\<close> selects its first function when
  \<^verbatim>\<open>mode == 0\<close> and its second one otherwise. \<open>black_scholes\<close> is the function on the
  scalars it is traced on; \<open>black_scholes_py\<close> below is the call with a Python integer
  for \<^verbatim>\<open>mode\<close>.
\<close>

definition bs_d1 :: "'a fp \<Rightarrow> 'a \<Rightarrow> 'a \<Rightarrow> 'a \<Rightarrow> 'a \<Rightarrow> 'a \<Rightarrow> 'a" where
  "bs_d1 A \<sigma> S K T r =
     fdiv A (fadd A (flog A (fdiv A S K))
                    (fmul A (fadd A r (fdiv A (fpow A \<sigma> 2) (flit A 2))) T))
            (fmul A \<sigma> (fsqrt A T))"

definition bs_d2 :: "'a fp \<Rightarrow> 'a \<Rightarrow> 'a \<Rightarrow> 'a \<Rightarrow> 'a \<Rightarrow> 'a \<Rightarrow> 'a" where
  "bs_d2 A \<sigma> S K T r = fsub A (bs_d1 A \<sigma> S K T r) (fmul A \<sigma> (fsqrt A T))"

definition black_scholes :: "'a fp \<Rightarrow> 'a \<Rightarrow> 'a \<Rightarrow> 'a \<Rightarrow> 'a \<Rightarrow> 'a \<Rightarrow> int32 \<Rightarrow> exn + 'a" where
  "black_scholes A \<sigma> S K T r mode =
     (let d1 = fdiv A (fadd A (flog A (fdiv A S K))
                              (fmul A (fadd A r (fdiv A (fpow A \<sigma> 2) (flit A 2))) T))
                      (fmul A \<sigma> (fsqrt A T));
          d2 = fsub A d1 (fmul A \<sigma> (fsqrt A T));
          call = fsub A (fmul A (fcdf A d1) S)
                        (fmul A (fmul A (fcdf A d2) K) (fexp A (fmul A (fneg A r) T)));
          premium = (if mode = 0 then call
                     else fadd A (fsub A (fmul A K (fexp A (fmul A (fneg A r) T))) S) call)
      in Inr premium)"

text \<open>
  A call of the jitted function converts a Python integer \<^verbatim>\<open>mode\<close> to a 32-bit signed
  integer before the body runs; an integer outside \<open>[-2^31, 2^31)\<close> does not convert and
  the call raises \<^verbatim>\<open>OverflowError\<close>.
\<close>

definition jit_int32 :: "int \<Rightarrow> exn + int32" where
  "jit_int32 m = (if - (2 ^ 31) \<le> m \<and> m < 2 ^ 31 then Inr (word_of_int m) else Inl OverflowError)"

definition black_scholes_py :: "'a fp \<Rightarrow> 'a \<Rightarrow> 'a \<Rightarrow> 'a \<Rightarrow> 'a \<Rightarrow> 'a \<Rightarrow> int \<Rightarrow> exn + 'a" where
  "black_scholes_py A \<sigma> S K T r mode =
     (case jit_int32 mode of
        Inl e \<Rightarrow> Inl e
      | Inr m \<Rightarrow> black_scholes A \<sigma> S K T r m)"

section \<open>The implied-volatility solver\<close>

text \<open>
  \<^verbatim>\<open>implied_vol\<close> hands the residual \<^verbatim>\<open>objective\<close> and the bracket \<^verbatim>\<open>0., 10.\<close> to
  \<^verbatim>\<open>scipy.optimize.brentq\<close> and rounds what comes back with \<^verbatim>\<open>round(..., 5)\<close>.
  The root finder is a routine of SciPy, not of the repository: it is a parameter of the
  model, a function from the residual and the two ends of the bracket to an exception
  or a root. \<^verbatim>\<open>implied_vol\<close> has no \<^verbatim>\<open>try\<close>, so an exception of the root finder
  leaves it unchanged.
\<close>

type_synonym 'a solver = "('a \<Rightarrow> exn + 'a) \<Rightarrow> 'a \<Rightarrow> 'a \<Rightarrow> exn + 'a"

definition objective :: "'a fp \<Rightarrow> 'a \<Rightarrow> 'a \<Rightarrow> 'a \<Rightarrow> 'a \<Rightarrow> 'a \<Rightarrow> int \<Rightarrow> 'a \<Rightarrow> exn + 'a" where
  "objective A P S K T r mode \<sigma> =
     (case black_scholes_py A \<sigma> S K T r mode of
        Inl e \<Rightarrow> Inl e
      | Inr premium \<Rightarrow> Inr (fsub A premium P))"

definition implied_vol :: "'a fp \<Rightarrow> 'a solver \<Rightarrow> 'a \<Rightarrow> 'a \<Rightarrow> 'a \<Rightarrow> 'a \<Rightarrow> 'a \<Rightarrow> int \<Rightarrow> exn + 'a" where
  "implied_vol A brentq P S K T r mode =
     (case brentq (objective A P S K T r mode) (flit A 0) (flit A 10) of
        Inl e \<Rightarrow> Inl e
      | Inr x0 \<Rightarrow> Inr (fround A x0 5))"

section \<open>Exact real arithmetic\<close>

text \<open>
  The number system in which the formulas of the specification are read: the real
  numbers, with the standard normal distribution function given by its power series
  \<open>\<Phi>(x) = 1/2 + x / sqrt (2 \<pi>) * (\<Sum>m. (-1)^m (x\<^sup>2)^m / (2^m m! (2 m + 1)))\<close>
  and Python's \<^verbatim>\<open>round(x, n)\<close>, which rounds the exact value of \<open>x\<close> to \<open>n\<close> decimal
  places, a tie going to the even last digit. It leaves out the rounding of every
  floating-point operation. In HOL \<open>x / 0 = 0\<close> and \<open>ln x\<close> is unspecified for \<open>x \<le> 0\<close>, where
  the machine yields an infinity or a NaN: what is proved on this instance about values
  is proved where \<open>\<sigma>\<close>, \<open>S\<close>, \<open>K\<close> and \<open>T\<close> are positive, or at inputs that divide by no
  zero and take the logarithm of a positive number.
\<close>

definition cdf_coeff :: "nat \<Rightarrow> real" where
  "cdf_coeff m = (- 1) ^ m / (2 ^ m * fact m * (2 * real m + 1))"

definition cdf_series :: "real \<Rightarrow> real" where
  "cdf_series t = (\<Sum>m. cdf_coeff m * t ^ m)"

definition std_normal_pdf :: "real \<Rightarrow> real" where
  "std_normal_pdf x = exp (- (x\<^sup>2) / 2) / sqrt (2 * pi)"

definition std_normal_cdf :: "real \<Rightarrow> real" where
  "std_normal_cdf x = 1 / 2 + x * cdf_series (x\<^sup>2) / sqrt (2 * pi)"

definition round_half_even :: "real \<Rightarrow> int" where
  "round_half_even y =
     (let f = \<lfloor>y\<rfloor>; d = y - of_int f
      in if d < 1 / 2 then f
         else if 1 / 2 < d then f + 1
         else if even f then f else f + 1)"

definition py_round :: "real \<Rightarrow> nat \<Rightarrow> real" where
  "py_round x ndigits = of_int (round_half_even (x * 10 ^ ndigits)) / 10 ^ ndigits"

definition real_fp :: "real fp" where
  "real_fp = \<lparr>flit = of_int, fadd = (+), fsub = (-), fmul = (*), fdiv = (/), fneg = uminus,
              fpow = (^), flog = ln, fsqrt = sqrt, fexp = exp, fcdf = std_normal_cdf,
              fround = py_round\<rparr>"

text \<open>The quantities \<open>d1\<close> and \<open>d2\<close> as the specification writes them.\<close>

definition spec_d1 :: "real \<Rightarrow> real \<Rightarrow> real \<Rightarrow> real \<Rightarrow> real \<Rightarrow> real" where
  "spec_d1 \<sigma> S K T r = (ln (S / K) + (r + \<sigma>\<^sup>2 / 2) * T) / (\<sigma> * sqrt T)"

definition spec_d2 :: "real \<Rightarrow> real \<Rightarrow> real \<Rightarrow> real \<Rightarrow> real \<Rightarrow> real" where
  "spec_d2 \<sigma> S K T r = spec_d1 \<sigma> S K T r - \<sigma> * sqrt T"

section \<open>The sensitivities\<close>

text \<open>
  \<^verbatim>\<open>bs_delta = jax.jacfwd(black_scholes, 1)\<close> differentiates the kernel in its argument
  of index 1, the underlying price \<open>S\<close>, and \<^verbatim>\<open>bs_gamma = jax.jacfwd(bs_delta, 1)\<close>
  differentiates \<^verbatim>\<open>bs_delta\<close> in \<open>S\<close> again. \<^verbatim>\<open>jax.jacfwd\<close> is a routine of JAX; over the
  reals it is the derivative, the number \<open>D\<close> with \<open>(f has_real_derivative D) (at x)\<close>.
  \<open>premium\<close> reads the value the kernel returns (it returns one on every input).
\<close>

definition jacfwd :: "(real \<Rightarrow> real) \<Rightarrow> real \<Rightarrow> real" where
  "jacfwd f x = (THE D. (f has_real_derivative D) (at x))"

definition premium :: "real \<Rightarrow> real \<Rightarrow> real \<Rightarrow> real \<Rightarrow> real \<Rightarrow> int32 \<Rightarrow> real" where
  "premium \<sigma> S K T r mode = projr (black_scholes real_fp \<sigma> S K T r mode)"

definition bs_delta :: "real \<Rightarrow> real \<Rightarrow> real \<Rightarrow> real \<Rightarrow> real \<Rightarrow> int32 \<Rightarrow> real" where
  "bs_delta \<sigma> S K T r mode = jacfwd (\<lambda>s. premium \<sigma> s K T r mode) S"

definition bs_gamma :: "real \<Rightarrow> real \<Rightarrow> real \<Rightarrow> real \<Rightarrow> real \<Rightarrow> int32 \<Rightarrow> real" where
  "bs_gamma \<sigma> S K T r mode = jacfwd (\<lambda>s. bs_delta \<sigma> s K T r mode) S"

section \<open>Binary32 arithmetic\<close>

text \<open>
  The number system the program runs on: IEEE 754 binary32 with rounding to nearest, ties
  to even. \<open>Fin x\<close> is the finite number of exact value \<open>x\<close>; \<open>PInf\<close>, \<open>NInf\<close> and \<open>NaN\<close> are
  the infinities and the NaN. \<open>round_to_binary32\<close> rounds a real to a 24-bit significand,
  the exponent of the last place no lower than \<open>-149\<close> (subnormal numbers), and
  \<open>f32_of_real\<close> turns a rounded magnitude of \<open>2^128\<close> or more into an infinity. The two
  zeros are not told apart: a zero divisor counts as \<open>+0\<close>, which \<^verbatim>\<open>\<sigma> * jnp.sqrt(T)\<close> is
  at \<^verbatim>\<open>\<sigma> = 0.\<close> or \<^verbatim>\<open>T = 0.\<close>.

  The arithmetic operations are those of the standard. \<^verbatim>\<open>jnp.log\<close>, \<^verbatim>\<open>jnp.sqrt\<close> and
  \<^verbatim>\<open>jnp.exp\<close> are taken as the correctly rounded functions. \<^verbatim>\<open>norm.cdf\<close> is taken as the
  correctly rounded \<open>\<Phi>\<close> for \<open>|x| < 16\<close>; from \<open>16\<close> on it is exactly \<open>1\<close> and up to \<open>-16\<close>
  exactly \<open>0\<close>, since \<open>1 - \<Phi>(16) < 10^(-57)\<close> is far below half a unit in the last place of
  \<open>1\<close> and below the least positive binary32 number (JAX computes it from \<^verbatim>\<open>erfc\<close>, which
  underflows to \<open>0\<close> there). JAX's routines may differ from the correctly rounded ones in
  the last place; what is proved on this instance does not depend on last places: it
  rests on the saturation of \<^verbatim>\<open>norm.cdf\<close>, on operations that are exact on small
  integers and powers of two, and on every finite result being a rational number.
  \<^verbatim>\<open>round\<close> is Python's, on the value of the number.
\<close>

datatype f32 = Fin real | PInf | NInf | NaN

definition round_to_binary32 :: "real \<Rightarrow> real" where
  "round_to_binary32 x =
     (if x = 0 then 0
      else let e = max \<lfloor>log 2 \<bar>x\<bar>\<rfloor> (- 126) - 23
           in of_int (round_half_even (x / 2 powi e)) * 2 powi e)"

definition f32_of_real :: "real \<Rightarrow> f32" where
  "f32_of_real x =
     (let y = round_to_binary32 x
      in if 2 ^ 128 \<le> y then PInf else if y \<le> - (2 ^ 128) then NInf else Fin y)"

definition signed_inf :: "real \<Rightarrow> f32" where
  "signed_inf s = (if 0 < s then PInf else if s < 0 then NInf else NaN)"

fun sgn32 :: "f32 \<Rightarrow> real" where
  "sgn32 (Fin x) = sgn x"
| "sgn32 PInf = 1"
| "sgn32 NInf = - 1"
| "sgn32 NaN = 0"

fun f32_neg :: "f32 \<Rightarrow> f32" where
  "f32_neg (Fin x) = Fin (- x)"
| "f32_neg PInf = NInf"
| "f32_neg NInf = PInf"
| "f32_neg NaN = NaN"

fun f32_add :: "f32 \<Rightarrow> f32 \<Rightarrow> f32" where
  "f32_add (Fin x) (Fin y) = f32_of_real (x + y)"
| "f32_add NaN b = NaN"
| "f32_add a NaN = NaN"
| "f32_add PInf NInf = NaN"
| "f32_add NInf PInf = NaN"
| "f32_add PInf b = PInf"
| "f32_add a PInf = PInf"
| "f32_add NInf b = NInf"
| "f32_add a NInf = NInf"

definition f32_sub :: "f32 \<Rightarrow> f32 \<Rightarrow> f32" where
  "f32_sub a b = f32_add a (f32_neg b)"

fun f32_mul :: "f32 \<Rightarrow> f32 \<Rightarrow> f32" where
  "f32_mul (Fin x) (Fin y) = f32_of_real (x * y)"
| "f32_mul NaN b = NaN"
| "f32_mul a NaN = NaN"
| "f32_mul a b = signed_inf (sgn32 a * sgn32 b)"

fun f32_div :: "f32 \<Rightarrow> f32 \<Rightarrow> f32" where
  "f32_div (Fin x) (Fin y) = (if y = 0 then signed_inf (sgn x) else f32_of_real (x / y))"
| "f32_div NaN b = NaN"
| "f32_div a NaN = NaN"
| "f32_div (Fin x) b = Fin 0"
| "f32_div a (Fin y) = signed_inf (sgn32 a * (if y < 0 then - 1 else 1))"
| "f32_div a b = NaN"

primrec f32_pow :: "f32 \<Rightarrow> nat \<Rightarrow> f32" where
  "f32_pow a 0 = Fin 1"
| "f32_pow a (Suc n) = (if n = 0 then a else f32_mul (f32_pow a n) a)"

fun f32_log :: "f32 \<Rightarrow> f32" where
  "f32_log (Fin x) = (if x < 0 then NaN else if x = 0 then NInf else f32_of_real (ln x))"
| "f32_log PInf = PInf"
| "f32_log NInf = NaN"
| "f32_log NaN = NaN"

fun f32_sqrt :: "f32 \<Rightarrow> f32" where
  "f32_sqrt (Fin x) = (if x < 0 then NaN else f32_of_real (sqrt x))"
| "f32_sqrt PInf = PInf"
| "f32_sqrt NInf = NaN"
| "f32_sqrt NaN = NaN"

fun f32_exp :: "f32 \<Rightarrow> f32" where
  "f32_exp (Fin x) = f32_of_real (exp x)"
| "f32_exp PInf = PInf"
| "f32_exp NInf = Fin 0"
| "f32_exp NaN = NaN"

fun f32_cdf :: "f32 \<Rightarrow> f32" where
  "f32_cdf (Fin x) =
     (if 16 \<le> x then Fin 1 else if x \<le> - 16 then Fin 0 else f32_of_real (std_normal_cdf x))"
| "f32_cdf PInf = Fin 1"
| "f32_cdf NInf = Fin 0"
| "f32_cdf NaN = NaN"

fun f32_round :: "f32 \<Rightarrow> nat \<Rightarrow> f32" where
  "f32_round (Fin x) n = Fin (py_round x n)"
| "f32_round a n = a"

definition f32_fp :: "f32 fp" where
  "f32_fp = \<lparr>flit = (\<lambda>i. f32_of_real (of_int i)), fadd = f32_add, fsub = f32_sub,
             fmul = f32_mul, fdiv = f32_div, fneg = f32_neg, fpow = f32_pow, flog = f32_log,
             fsqrt = f32_sqrt, fexp = f32_exp, fcdf = f32_cdf, fround = f32_round\<rparr>"


section \<open>The standard normal distribution function\<close>

text \<open>
  The series converges everywhere, \<open>std_normal_cdf\<close> has the density \<open>std_normal_pdf\<close> as
  its derivative and takes the value \<open>1/2\<close> at \<open>0\<close>: it is the distribution function of
  the standard normal law.
\<close>

lemma cdf_coeff_summable: "summable (\<lambda>m. cdf_coeff m * t ^ m)"
proof (rule summable_comparison_test')
  show "summable (\<lambda>m. inverse (fact m) * \<bar>t\<bar> ^ m)"
    by (rule summable_exp)
  show "norm (cdf_coeff m * t ^ m) \<le> inverse (fact m) * \<bar>t\<bar> ^ m" if "m \<ge> 0" for m
  proof -
    have "\<bar>cdf_coeff m\<bar> = 1 / (2 ^ m * fact m * (2 * real m + 1))"
      by (simp add: cdf_coeff_def abs_mult power_abs)
    also have "\<dots> \<le> 1 / fact m"
    proof -
      have "(1::real) \<le> 2 ^ m" by simp
      moreover have "(1::real) \<le> 2 * real m + 1" by simp
      ultimately have "(1::real) * 1 \<le> 2 ^ m * (2 * real m + 1)"
        by (intro mult_mono) auto
      then have "fact m * 1 \<le> (fact m :: real) * (2 ^ m * (2 * real m + 1))"
        by (intro mult_left_mono) auto
      then show ?thesis
        by (intro divide_left_mono) (auto simp: mult_ac)
    qed
    finally have "\<bar>cdf_coeff m\<bar> \<le> inverse (fact m)" by (simp add: inverse_eq_divide)
    then show ?thesis
      by (simp add: abs_mult power_abs mult_right_mono)
  qed
qed

lemma cdf_series_diffs:
  "cdf_coeff m + 2 * (real m * cdf_coeff m) = (- (1 / 2)) ^ m / fact m"
proof -
  have "cdf_coeff m + 2 * (real m * cdf_coeff m) = (2 * real m + 1) * cdf_coeff m"
    by (simp add: algebra_simps)
  also have "\<dots> = (- 1) ^ m / (2 ^ m * fact m)"
    by (simp add: cdf_coeff_def)
  also have "\<dots> = (- (1 / 2)) ^ m / fact m"
    by (simp add: power_minus [of "1 / 2 :: real"] power_one_over)
  finally show ?thesis .
qed

lemma DERIV_cdf_series:
  "DERIV cdf_series t :> (\<Sum>m. diffs cdf_coeff m * t ^ m)"
  unfolding cdf_series_def
  by (rule termdiffs_strong_converges_everywhere) (rule cdf_coeff_summable)

lemma cdf_series_ode:
  "cdf_series t + 2 * (t * (\<Sum>m. diffs cdf_coeff m * t ^ m)) = exp (- (t / 2))"
proof -
  let ?g' = "\<Sum>m. diffs cdf_coeff m * t ^ m"
  have g: "(\<lambda>m. cdf_coeff m * t ^ m) sums cdf_series t"
    unfolding cdf_series_def by (rule summable_sums) (rule cdf_coeff_summable)
  have "summable (\<lambda>m. diffs cdf_coeff m * t ^ m)"
    by (rule termdiff_converges_all) (rule cdf_coeff_summable)
  then have "(\<lambda>m. diffs cdf_coeff m * t ^ m) sums ?g'"
    by (rule summable_sums)
  then have "(\<lambda>m. t * (diffs cdf_coeff m * t ^ m)) sums (t * ?g')"
    by (rule sums_mult)
  then have "(\<lambda>m. real (Suc m) * cdf_coeff (Suc m) * t ^ Suc m) sums (t * ?g')"
    by (simp add: diffs_def mult_ac)
  then have "(\<lambda>m. real m * cdf_coeff m * t ^ m) sums (t * ?g')"
    using sums_Suc_iff [of "\<lambda>m. real m * cdf_coeff m * t ^ m" "t * ?g'"] by simp
  then have "(\<lambda>m. 2 * (real m * cdf_coeff m * t ^ m)) sums (2 * (t * ?g'))"
    by (rule sums_mult)
  with g have "(\<lambda>m. cdf_coeff m * t ^ m + 2 * (real m * cdf_coeff m * t ^ m))
                 sums (cdf_series t + 2 * (t * ?g'))"
    by (rule sums_add)
  moreover have "cdf_coeff m * t ^ m + 2 * (real m * cdf_coeff m * t ^ m)
                   = (- (t / 2)) ^ m /\<^sub>R fact m" for m
  proof -
    have "cdf_coeff m * t ^ m + 2 * (real m * cdf_coeff m * t ^ m)
            = (cdf_coeff m + 2 * (real m * cdf_coeff m)) * t ^ m"
      by (simp add: algebra_simps)
    also have "\<dots> = (- (1 / 2)) ^ m / fact m * t ^ m"
      by (simp only: cdf_series_diffs)
    also have "\<dots> = (- (1 / 2) * t) ^ m / fact m"
      by (simp only: power_mult_distrib times_divide_eq_left)
    finally show ?thesis
      by (simp add: field_simps)
  qed
  ultimately have "(\<lambda>m. (- (t / 2)) ^ m /\<^sub>R fact m) sums (cdf_series t + 2 * (t * ?g'))"
    by simp
  then show ?thesis
    using exp_converges [of "- (t / 2)"] by (rule sums_unique2)
qed

lemma DERIV_std_normal_cdf: "DERIV std_normal_cdf x :> std_normal_pdf x"
proof -
  let ?g' = "\<Sum>m. diffs cdf_coeff m * (x\<^sup>2) ^ m"
  have "DERIV (\<lambda>x. cdf_series (x\<^sup>2)) x :> ?g' * (2 * x)"
    by (rule DERIV_chain' [OF _ DERIV_cdf_series]) (auto intro!: derivative_eq_intros)
  then have "DERIV (\<lambda>x. x * cdf_series (x\<^sup>2)) x
               :> x * (?g' * (2 * x)) + 1 * cdf_series (x\<^sup>2)"
    by (rule DERIV_mult' [OF DERIV_ident])
  then have "DERIV (\<lambda>x. x * cdf_series (x\<^sup>2) / sqrt (2 * pi)) x
               :> (x * (?g' * (2 * x)) + 1 * cdf_series (x\<^sup>2)) / sqrt (2 * pi)"
    by (rule DERIV_cdivide)
  then have "DERIV (\<lambda>x. 1 / 2 + x * cdf_series (x\<^sup>2) / sqrt (2 * pi)) x
               :> 0 + (x * (?g' * (2 * x)) + 1 * cdf_series (x\<^sup>2)) / sqrt (2 * pi)"
    by (rule DERIV_add [OF DERIV_const])
  moreover have "x * (?g' * (2 * x)) + 1 * cdf_series (x\<^sup>2) = exp (- (x\<^sup>2) / 2)"
    using cdf_series_ode [of "x\<^sup>2"] by (simp add: power2_eq_square mult_ac)
  ultimately show ?thesis
    by (simp add: std_normal_cdf_def [abs_def] std_normal_pdf_def)
qed

lemma std_normal_cdf_0: "std_normal_cdf 0 = 1 / 2"
  by (simp add: std_normal_cdf_def)

section \<open>Properties of the pricing kernel\<close>

lemma real_fp_simps:
  "flit real_fp = of_int" "fadd real_fp = (+)" "fsub real_fp = (-)" "fmul real_fp = (*)"
  "fdiv real_fp = (/)" "fneg real_fp = uminus" "fpow real_fp = (^)" "flog real_fp = ln"
  "fsqrt real_fp = sqrt" "fexp real_fp = exp" "fcdf real_fp = std_normal_cdf"
  "fround real_fp = py_round"
  by (simp_all add: real_fp_def)

lemma bs_d1_real: "bs_d1 real_fp \<sigma> S K T r = spec_d1 \<sigma> S K T r"
  by (simp add: bs_d1_def spec_d1_def real_fp_simps)

lemma bs_d2_real: "bs_d2 real_fp \<sigma> S K T r = spec_d2 \<sigma> S K T r"
  by (simp add: bs_d2_def spec_d2_def bs_d1_real real_fp_simps)

lemma black_scholes_unfold:
  "black_scholes A \<sigma> S K T r mode =
     Inr (let call = fsub A (fmul A (fcdf A (bs_d1 A \<sigma> S K T r)) S)
                           (fmul A (fmul A (fcdf A (bs_d2 A \<sigma> S K T r)) K)
                                   (fexp A (fmul A (fneg A r) T)))
          in if mode = 0 then call
             else fadd A (fsub A (fmul A K (fexp A (fmul A (fneg A r) T))) S) call)"
  by (simp add: black_scholes_def bs_d1_def bs_d2_def Let_def)


lemma premium_call:
  "premium \<sigma> S K T r 0 =
     std_normal_cdf (spec_d1 \<sigma> S K T r) * S
       - std_normal_cdf (spec_d2 \<sigma> S K T r) * K * exp (- (r * T))"
  by (simp add: premium_def black_scholes_unfold bs_d1_real bs_d2_real real_fp_simps)

lemma premium_put:
  "mode \<noteq> 0 \<Longrightarrow> premium \<sigma> S K T r mode = K * exp (- (r * T)) - S + premium \<sigma> S K T r 0"
  by (simp add: premium_def black_scholes_unfold bs_d1_real bs_d2_real real_fp_simps)

text \<open>
  C2. The put premium is not computed on its own: it is \<open>K * e^(-r T) - S + call\<close>, with
  the call premium of the same inputs. Hence, in exact arithmetic, the call premium
  minus the put premium is \<open>S - K * e^(-r T)\<close>, with nothing left over, on every input
  (those with positive \<open>\<sigma>\<close>, \<open>S\<close>, \<open>K\<close>, \<open>T\<close> among them). The identity is one of exact
  arithmetic: the rounding of the two floating-point additions is not part of it.
\<close>

theorem put_call_parity:
  "black_scholes A \<sigma> S K T r 1 =
     Inr (fadd A (fsub A (fmul A K (fexp A (fmul A (fneg A r) T))) S)
                 (projr (black_scholes A \<sigma> S K T r 0)))
   \<and> premium \<sigma>' S' K' T' r' 0 - premium \<sigma>' S' K' T' r' 1 = S' - K' * exp (- (r' * T'))"
proof -
  have "premium \<sigma>' S' K' T' r' 1 = K' * exp (- (r' * T')) - S' + premium \<sigma>' S' K' T' r' 0"
    by (rule premium_put) simp
  then show ?thesis
    by (simp add: black_scholes_unfold Let_def)
qed

text \<open>
  C3. The claim is that a call with \<open>\<sigma> \<le> 0\<close>, \<open>S \<le> 0\<close>, \<open>K \<le> 0\<close> or \<open>T \<le> 0\<close> is rejected
  with a domain error. The kernel tests none of its arguments. At \<open>\<sigma> = -0.2\<close>,
  \<open>S = K = 100\<close>, \<open>T = 1\<close>, \<open>r = 0.05\<close> (no division by zero, \<open>ln 1\<close>) it returns the value
  of the formula, \<open>100 \<Phi>(-0.35) - 100 \<Phi>(-0.15) e^(-0.05)\<close>, and no exception.
\<close>

theorem black_scholes_negative_sigma_not_rejected:
  "\<not> isl (black_scholes real_fp (- 1 / 5) 100 100 1 (1 / 20) 0)
   \<and> black_scholes real_fp (- 1 / 5) 100 100 1 (1 / 20) 0
       = Inr (std_normal_cdf (- 7 / 20) * 100 - std_normal_cdf (- 3 / 20) * 100 * exp (- 1 / 20))"
  by (simp add: black_scholes_unfold bs_d1_real bs_d2_real spec_d1_def spec_d2_def real_fp_simps
        power2_eq_square)

text \<open>
  C3, as amended. The kernel validates nothing: on every input, those with \<open>\<sigma> \<le> 0\<close>,
  \<open>S \<le> 0\<close>, \<open>K \<le> 0\<close> or \<open>T \<le> 0\<close> included, and in every number system, it evaluates
  the formula through the division in \<open>d1\<close> and returns the result; it raises no exception.
\<close>

theorem black_scholes_never_raises:
  "black_scholes A \<sigma> S K T r mode \<noteq> Inl e
   \<and> black_scholes A \<sigma> S K T r mode =
      Inr (if mode = 0
           then fsub A (fmul A (fcdf A (bs_d1 A \<sigma> S K T r)) S)
                       (fmul A (fmul A (fcdf A (bs_d2 A \<sigma> S K T r)) K)
                               (fexp A (fmul A (fneg A r) T)))
           else fadd A (fsub A (fmul A K (fexp A (fmul A (fneg A r) T))) S)
                       (fsub A (fmul A (fcdf A (bs_d1 A \<sigma> S K T r)) S)
                               (fmul A (fmul A (fcdf A (bs_d2 A \<sigma> S K T r)) K)
                                       (fexp A (fmul A (fneg A r) T)))))"
  by (simp add: black_scholes_unfold Let_def)

lemma jit_int32_nonzero:
  assumes "mode \<noteq> 0" "- (2 ^ 31) \<le> mode" "mode < 2 ^ 31"
  shows "\<exists>m. jit_int32 mode = Inr m \<and> m \<noteq> 0"
proof -
  have "\<not> 2 ^ 32 dvd mode"
  proof
    assume "2 ^ 32 dvd mode"
    then obtain k where k: "mode = 2 ^ 32 * k" ..
    with assms show False by (cases "k \<le> 0"; cases "k = 0") auto
  qed
  then have "(word_of_int mode :: int32) \<noteq> 0"
    by (simp add: word_of_int_eq_0_iff)
  with assms show ?thesis
    by (simp add: jit_int32_def)
qed

text \<open>
  C10. The claim is that every \<^verbatim>\<open>mode\<close> other than \<open>0\<close> yields the put premium. The jitted
  function takes \<^verbatim>\<open>mode\<close> as a 32-bit signed integer: at \<open>mode = 2^31\<close> the call raises
  \<^verbatim>\<open>OverflowError\<close> and returns no premium.
\<close>

theorem black_scholes_py_mode_out_of_range:
  "black_scholes_py real_fp (1 / 5) 100 100 1 (1 / 20) 2147483648 = Inl OverflowError"
  by (simp add: black_scholes_py_def jit_int32_def)

text \<open>
  C10, as amended. For every integer \<^verbatim>\<open>mode\<close> in \<open>[-2^31, 2^31)\<close> other than \<open>0\<close>, and not for
  \<open>1\<close> alone, the call returns the put premium \<open>K * e^(-r T) - S + call\<close>, where \<open>call\<close> is
  what it returns at \<open>mode = 0\<close>; the call premium is returned at \<open>mode = 0\<close> only. A
  Python integer outside \<open>[-2^31, 2^31)\<close> is refused with \<^verbatim>\<open>OverflowError\<close>.
\<close>

theorem black_scholes_py_put_for_nonzero_mode:
  "(mode \<noteq> 0 \<and> - (2 ^ 31) \<le> mode \<and> mode < 2 ^ 31 \<longrightarrow>
      black_scholes_py A \<sigma> S K T r mode =
        Inr (fadd A (fsub A (fmul A K (fexp A (fmul A (fneg A r) T))) S)
                    (projr (black_scholes_py A \<sigma> S K T r 0))))
   \<and> (mode < - (2 ^ 31) \<or> 2 ^ 31 \<le> mode \<longrightarrow>
      black_scholes_py A \<sigma> S K T r mode = Inl OverflowError)"
proof (intro conjI impI)
  assume "mode \<noteq> 0 \<and> - (2 ^ 31) \<le> mode \<and> mode < 2 ^ 31"
  then obtain m where m: "jit_int32 mode = Inr m" "m \<noteq> 0"
    using jit_int32_nonzero by blast
  have z: "jit_int32 0 = Inr 0"
    by (simp add: jit_int32_def)
  show "black_scholes_py A \<sigma> S K T r mode =
        Inr (fadd A (fsub A (fmul A K (fexp A (fmul A (fneg A r) T))) S)
                    (projr (black_scholes_py A \<sigma> S K T r 0)))"
    using m by (simp add: black_scholes_py_def z black_scholes_unfold Let_def)
next
  assume "mode < - (2 ^ 31) \<or> 2 ^ 31 \<le> mode"
  then show "black_scholes_py A \<sigma> S K T r mode = Inl OverflowError"
    by (auto simp: black_scholes_py_def jit_int32_def)
qed

theorem black_scholes_py_put_for_nonzero_mode_witness:
  "(2::int) \<noteq> 0 \<and> - (2 ^ 31) \<le> (2::int) \<and> (2::int) < 2 ^ 31
   \<and> black_scholes_py real_fp (1 / 5) 100 100 1 (1 / 20) 2 =
     Inr (100 * exp (- 1 / 20) - 100 + projr (black_scholes_py real_fp (1 / 5) 100 100 1 (1 / 20) 0))
   \<and> (2 ^ 31 \<le> (2147483648::int))
   \<and> black_scholes_py real_fp (1 / 5) 100 100 1 (1 / 20) 2147483648 = Inl OverflowError"
  using black_scholes_py_put_for_nonzero_mode [of 2 real_fp "1 / 5" 100 100 1 "1 / 20"]
    black_scholes_py_put_for_nonzero_mode [of 2147483648 real_fp "1 / 5" 100 100 1 "1 / 20"]
  by (simp add: real_fp_simps)

section \<open>Properties of the solver\<close>

lemma implied_vol_propagates:
  "brentq (objective A P S K T r mode) (flit A 0) (flit A 10) = Inl e
     \<Longrightarrow> implied_vol A brentq P S K T r mode = Inl e"
  by (simp add: implied_vol_def)

lemma round_half_even_near: "\<bar>of_int (round_half_even y) - y\<bar> \<le> 1 / 2"
proof -
  have "of_int \<lfloor>y\<rfloor> \<le> y" "y < of_int \<lfloor>y\<rfloor> + 1"
    by linarith+
  then show ?thesis
    by (auto simp: round_half_even_def Let_def)
qed

lemma py_round_multiple: "py_round x n * 10 ^ n = of_int (round_half_even (x * 10 ^ n))"
  by (simp add: py_round_def)

lemma py_round_near: "\<bar>py_round x n - x\<bar> \<le> 1 / (2 * 10 ^ n)"
proof -
  have "\<bar>py_round x n - x\<bar> = \<bar>of_int (round_half_even (x * 10 ^ n)) - x * 10 ^ n\<bar> / 10 ^ n"
    by (simp add: py_round_def field_simps abs_divide)
  also have "\<dots> \<le> (1 / 2) / 10 ^ n"
    by (intro divide_right_mono round_half_even_near) simp
  finally show ?thesis by simp
qed

text \<open>
  C5. Whenever \<^verbatim>\<open>implied_vol\<close> succeeds, what it returns is the root of the solver passed
  through \<^verbatim>\<open>round(..., 5)\<close>: five decimal digits, no other number of them. In exact
  arithmetic that rounding yields an integer multiple of \<open>10^(-5)\<close>, at most half a unit of
  the fifth decimal away from the root.
\<close>

theorem implied_vol_rounds_to_5_digits:
  "implied_vol A brentq P S K T r mode =
     map_sum id (\<lambda>x0. fround A x0 5) (brentq (objective A P S K T r mode) (flit A 0) (flit A 10))
   \<and> fround real_fp x 5 * 10 ^ 5 = of_int (round_half_even (x * 10 ^ 5))
   \<and> \<bar>fround real_fp x 5 - x\<bar> \<le> 5 / 10 ^ 6"
proof -
  have "implied_vol A brentq P S K T r mode =
     map_sum id (\<lambda>x0. fround A x0 5) (brentq (objective A P S K T r mode) (flit A 0) (flit A 10))"
    by (simp add: implied_vol_def split: sum.split)
  moreover have "\<bar>py_round x 5 - x\<bar> \<le> 5 / 10 ^ 6"
    using py_round_near [of x 5] by simp
  ultimately show ?thesis
    using py_round_multiple [of x 5] by (simp add: real_fp_simps)
qed

section \<open>Properties of the sensitivities\<close>

lemma jacfwd_eq: "(f has_real_derivative D) (at x) \<Longrightarrow> jacfwd f x = D"
  unfolding jacfwd_def by (rule the_equality) (auto intro: DERIV_unique)

lemma DERIV_spec_d1:
  assumes "0 < \<sigma>" "0 < S" "0 < K" "0 < T"
  shows "((\<lambda>s. spec_d1 \<sigma> s K T r) has_real_derivative 1 / (S * (\<sigma> * sqrt T))) (at S)"
proof -
  have "0 < S / K" using assms by simp
  then show ?thesis
    unfolding spec_d1_def using assms
    by (auto intro!: derivative_eq_intros simp: field_simps)
qed

lemma pdf_identity:
  assumes "0 < \<sigma>" "0 < S" "0 < K" "0 < T"
  shows "S * std_normal_pdf (spec_d1 \<sigma> S K T r)
           = K * exp (- (r * T)) * std_normal_pdf (spec_d2 \<sigma> S K T r)"
proof -
  define b where "b = \<sigma> * sqrt T"
  define d1 where "d1 = spec_d1 \<sigma> S K T r"
  have b: "0 < b" using assms by (simp add: b_def)
  have bb: "b * b = \<sigma>\<^sup>2 * T" using assms by (simp add: b_def power2_eq_square)
  have bd: "b * d1 = ln (S / K) + (r + \<sigma>\<^sup>2 / 2) * T"
    using assms by (simp add: d1_def spec_d1_def b_def)
  have "(d1 - b)\<^sup>2 / 2 = d1\<^sup>2 / 2 - b * d1 + b * b / 2"
    by (simp add: power2_eq_square field_simps)
  also have "\<dots> = d1\<^sup>2 / 2 - ln (S / K) - r * T"
    by (simp add: bd bb algebra_simps)
  finally have e: "- ((d1 - b)\<^sup>2) / 2 = - (d1\<^sup>2) / 2 + ln (S / K) + r * T"
    by simp
  have "exp (- (r * T)) * exp (- ((d1 - b)\<^sup>2) / 2)
          = exp (- (r * T)) * (exp (- (d1\<^sup>2) / 2) * exp (ln (S / K)) * exp (r * T))"
    by (simp only: e exp_add)
  also have "\<dots> = exp (- (d1\<^sup>2) / 2) * (S / K) * (exp (- (r * T)) * exp (r * T))"
    using assms by simp
  also have "\<dots> = exp (- (d1\<^sup>2) / 2) * (S / K)"
    by (simp add: exp_minus)
  finally have "K * exp (- (r * T)) * exp (- ((d1 - b)\<^sup>2) / 2) = S * exp (- (d1\<^sup>2) / 2)"
    using assms by (simp add: field_simps)
  then show ?thesis
    by (simp add: std_normal_pdf_def spec_d2_def d1_def [symmetric] b_def [symmetric])
qed


lemma DERIV_premium_call:
  assumes "0 < \<sigma>" "0 < S" "0 < K" "0 < T"
  shows "((\<lambda>s. premium \<sigma> s K T r 0) has_real_derivative
            std_normal_cdf (spec_d1 \<sigma> S K T r)) (at S)"
proof -
  let ?c = "1 / (S * (\<sigma> * sqrt T))"
  have d1: "((\<lambda>s. spec_d1 \<sigma> s K T r) has_real_derivative ?c) (at S)"
    by (rule DERIV_spec_d1 [OF assms])
  have d2: "((\<lambda>s. spec_d2 \<sigma> s K T r) has_real_derivative ?c) (at S)"
    unfolding spec_d2_def using d1 by (auto intro!: derivative_eq_intros)
  have c1: "((\<lambda>s. std_normal_cdf (spec_d1 \<sigma> s K T r)) has_real_derivative
               std_normal_pdf (spec_d1 \<sigma> S K T r) * ?c) (at S)"
    by (rule DERIV_chain' [OF d1 DERIV_std_normal_cdf])
  have c2: "((\<lambda>s. std_normal_cdf (spec_d2 \<sigma> s K T r)) has_real_derivative
               std_normal_pdf (spec_d2 \<sigma> S K T r) * ?c) (at S)"
    by (rule DERIV_chain' [OF d2 DERIV_std_normal_cdf])
  have "((\<lambda>s. std_normal_cdf (spec_d1 \<sigma> s K T r) * s
              - std_normal_cdf (spec_d2 \<sigma> s K T r) * K * exp (- (r * T))) has_real_derivative
          (std_normal_pdf (spec_d1 \<sigma> S K T r) * ?c * S + std_normal_cdf (spec_d1 \<sigma> S K T r))
            - std_normal_pdf (spec_d2 \<sigma> S K T r) * ?c * K * exp (- (r * T))) (at S)"
    using c1 c2 by (auto intro!: derivative_eq_intros)
  moreover have "(std_normal_pdf (spec_d1 \<sigma> S K T r) * ?c * S + std_normal_cdf (spec_d1 \<sigma> S K T r))
            - std_normal_pdf (spec_d2 \<sigma> S K T r) * ?c * K * exp (- (r * T))
          = std_normal_cdf (spec_d1 \<sigma> S K T r)"
  proof -
    have "std_normal_pdf (spec_d1 \<sigma> S K T r) * ?c * S
            - std_normal_pdf (spec_d2 \<sigma> S K T r) * ?c * K * exp (- (r * T))
          = ?c * (S * std_normal_pdf (spec_d1 \<sigma> S K T r)
                  - K * exp (- (r * T)) * std_normal_pdf (spec_d2 \<sigma> S K T r))"
      by (simp only: algebra_simps)
    also have "\<dots> = 0"
      by (simp only: pdf_identity [OF assms]) simp
    finally show ?thesis by simp
  qed
  ultimately show ?thesis
    by (simp add: premium_call [abs_def])
qed

lemma DERIV_premium_put:
  assumes "0 < \<sigma>" "0 < S" "0 < K" "0 < T" "mode \<noteq> 0"
  shows "((\<lambda>s. premium \<sigma> s K T r mode) has_real_derivative
            std_normal_cdf (spec_d1 \<sigma> S K T r) - 1) (at S)"
proof -
  have "((\<lambda>s. K * exp (- (r * T)) - s + premium \<sigma> s K T r 0) has_real_derivative
           0 - 1 + std_normal_cdf (spec_d1 \<sigma> S K T r)) (at S)"
    by (intro DERIV_add DERIV_diff DERIV_const DERIV_ident DERIV_premium_call assms)
  moreover have "(\<lambda>s. premium \<sigma> s K T r mode)
                   = (\<lambda>s. K * exp (- (r * T)) - s + premium \<sigma> s K T r 0)"
    using assms(5) by (simp add: premium_put)
  ultimately show ?thesis
    by simp
qed

lemma bs_delta_call:
  assumes "0 < \<sigma>" "0 < S" "0 < K" "0 < T"
  shows "bs_delta \<sigma> S K T r 0 = std_normal_cdf (spec_d1 \<sigma> S K T r)"
  unfolding bs_delta_def by (rule jacfwd_eq) (rule DERIV_premium_call [OF assms])

lemma bs_delta_put:
  assumes "0 < \<sigma>" "0 < S" "0 < K" "0 < T" "mode \<noteq> 0"
  shows "bs_delta \<sigma> S K T r mode = std_normal_cdf (spec_d1 \<sigma> S K T r) - 1"
  unfolding bs_delta_def by (rule jacfwd_eq) (rule DERIV_premium_put [OF assms])

lemma eventually_pos_nhds:
  fixes S :: real
  assumes "0 < S"
  shows "eventually (\<lambda>s. 0 < s) (nhds S)"
  using eventually_nhds_in_open [of "{0<..}" S] assms by simp

lemma DERIV_bs_delta:
  assumes "0 < \<sigma>" "0 < S" "0 < K" "0 < T"
  shows "((\<lambda>s. bs_delta \<sigma> s K T r mode) has_real_derivative
            std_normal_pdf (spec_d1 \<sigma> S K T r) / (S * \<sigma> * sqrt T)) (at S)"
proof -
  let ?c = "if mode = 0 then 0 else 1 :: real"
  have d1: "((\<lambda>s. spec_d1 \<sigma> s K T r) has_real_derivative 1 / (S * (\<sigma> * sqrt T))) (at S)"
    by (rule DERIV_spec_d1 [OF assms])
  have "((\<lambda>s. std_normal_cdf (spec_d1 \<sigma> s K T r)) has_real_derivative
               std_normal_pdf (spec_d1 \<sigma> S K T r) * (1 / (S * (\<sigma> * sqrt T)))) (at S)"
    by (rule DERIV_chain' [OF d1 DERIV_std_normal_cdf])
  then have "((\<lambda>s. std_normal_cdf (spec_d1 \<sigma> s K T r) - ?c) has_real_derivative
               std_normal_pdf (spec_d1 \<sigma> S K T r) * (1 / (S * (\<sigma> * sqrt T))) - 0) (at S)"
    by (intro DERIV_diff DERIV_const)
  then have *: "((\<lambda>s. std_normal_cdf (spec_d1 \<sigma> s K T r) - ?c) has_real_derivative
               std_normal_pdf (spec_d1 \<sigma> S K T r) / (S * \<sigma> * sqrt T)) (at S)"
    by (simp add: mult.assoc)
  have "eventually (\<lambda>s. bs_delta \<sigma> s K T r mode = std_normal_cdf (spec_d1 \<sigma> s K T r) - ?c)
          (nhds S)"
    using eventually_pos_nhds [OF assms(2)]
  proof (rule eventually_mono)
    fix s :: real assume "0 < s"
    then show "bs_delta \<sigma> s K T r mode = std_normal_cdf (spec_d1 \<sigma> s K T r) - ?c"
      using assms bs_delta_call [of \<sigma> s K T r] bs_delta_put [of \<sigma> s K T mode r]
      by (cases "mode = 0") simp_all
  qed
  then show ?thesis
    using * by (simp cong: DERIV_cong_ev)
qed

lemma bs_gamma_closed_form:
  assumes "0 < \<sigma>" "0 < S" "0 < K" "0 < T"
  shows "bs_gamma \<sigma> S K T r mode = std_normal_pdf (spec_d1 \<sigma> S K T r) / (S * \<sigma> * sqrt T)"
  unfolding bs_gamma_def by (rule jacfwd_eq) (rule DERIV_bs_delta [OF assms])

text \<open>
  C9. For \<open>\<sigma> > 0\<close>, \<open>S > 0\<close>, \<open>K > 0\<close>, \<open>T > 0\<close> and any \<open>r\<close>, gamma, the second derivative of
  the premium in \<open>S\<close>, is the same in Call mode and in Put mode. Both are the derivative of
  delta that exists there, \<open>\<phi>(d1) / (S \<sigma> sqrt T)\<close>. (Over the reals, with \<^verbatim>\<open>jax.jacfwd\<close>
  read as the derivative.)
\<close>

theorem bs_gamma_call_eq_put:
  assumes "0 < \<sigma>" "0 < S" "0 < K" "0 < T"
  shows "bs_gamma \<sigma> S K T r 0 = bs_gamma \<sigma> S K T r 1
         \<and> bs_gamma \<sigma> S K T r 0 = std_normal_pdf (spec_d1 \<sigma> S K T r) / (S * \<sigma> * sqrt T)"
  by (simp only: bs_gamma_closed_form [OF assms])

theorem bs_gamma_call_eq_put_witness:
  "(0::real) < 1 / 5 \<and> (0::real) < 100 \<and> (0::real) < 1
   \<and> bs_gamma (1 / 5) 100 100 1 (1 / 20) 0 = bs_gamma (1 / 5) 100 100 1 (1 / 20) 1
   \<and> bs_gamma (1 / 5) 100 100 1 (1 / 20) 0 = std_normal_pdf (7 / 20) / 20"
  using bs_gamma_call_eq_put [of "1 / 5" 100 100 1 "1 / 20"]
  by (simp add: spec_d1_def power2_eq_square)

section \<open>Monotonicity in the volatility\<close>

lemma std_normal_pdf_pos: "0 < std_normal_pdf x"
  by (simp add: std_normal_pdf_def)

lemma DERIV_spec_d1_sigma:
  assumes "0 < \<sigma>" "0 < T"
  shows "\<exists>D. ((\<lambda>v. spec_d1 v S K T r) has_real_derivative D) (at \<sigma>)
           \<and> ((\<lambda>v. spec_d2 v S K T r) has_real_derivative D - sqrt T) (at \<sigma>)"
proof -
  let ?D = "((0 + (0 + 2 * \<sigma> / 2) * T) * (\<sigma> * sqrt T)
              - (ln (S / K) + (r + \<sigma>\<^sup>2 / 2) * T) * (1 * sqrt T)) / ((\<sigma> * sqrt T) * (\<sigma> * sqrt T))"
  have nz: "\<sigma> * sqrt T \<noteq> 0" using assms by simp
  have d1: "((\<lambda>v. spec_d1 v S K T r) has_real_derivative ?D) (at \<sigma>)"
    unfolding spec_d1_def using nz
    by (auto intro!: derivative_eq_intros)
  have "((\<lambda>v. spec_d1 v S K T r - v * sqrt T) has_real_derivative ?D - 1 * sqrt T) (at \<sigma>)"
    by (intro DERIV_diff d1 DERIV_mult' DERIV_cmult_right DERIV_ident)
  then have "((\<lambda>v. spec_d2 v S K T r) has_real_derivative ?D - sqrt T) (at \<sigma>)"
    by (simp add: spec_d2_def [abs_def])
  with d1 show ?thesis by blast
qed

lemma DERIV_premium_sigma:
  assumes "0 < \<sigma>" "0 < S" "0 < K" "0 < T"
  shows "((\<lambda>v. premium v S K T r mode) has_real_derivative
            S * std_normal_pdf (spec_d1 \<sigma> S K T r) * sqrt T) (at \<sigma>)"
proof -
  obtain D where d1: "((\<lambda>v. spec_d1 v S K T r) has_real_derivative D) (at \<sigma>)"
    and d2: "((\<lambda>v. spec_d2 v S K T r) has_real_derivative D - sqrt T) (at \<sigma>)"
    using DERIV_spec_d1_sigma [OF assms(1) assms(4)] by blast
  let ?p1 = "std_normal_pdf (spec_d1 \<sigma> S K T r)"
  let ?p2 = "std_normal_pdf (spec_d2 \<sigma> S K T r)"
  have c1: "((\<lambda>v. std_normal_cdf (spec_d1 v S K T r)) has_real_derivative ?p1 * D) (at \<sigma>)"
    by (rule DERIV_chain' [OF d1 DERIV_std_normal_cdf])
  have c2: "((\<lambda>v. std_normal_cdf (spec_d2 v S K T r)) has_real_derivative ?p2 * (D - sqrt T)) (at \<sigma>)"
    by (rule DERIV_chain' [OF d2 DERIV_std_normal_cdf])
  have call: "((\<lambda>v. premium v S K T r 0) has_real_derivative
                 ?p1 * D * S - ?p2 * (D - sqrt T) * K * exp (- (r * T))) (at \<sigma>)"
    unfolding premium_call
    by (intro DERIV_diff DERIV_cmult_right c1 c2)
  have id: "S * ?p1 = K * exp (- (r * T)) * ?p2"
    by (rule pdf_identity [OF assms])
  have "?p1 * D * S - ?p2 * (D - sqrt T) * K * exp (- (r * T))
          = D * (S * ?p1) - (D - sqrt T) * (K * exp (- (r * T)) * ?p2)"
    by (simp add: algebra_simps)
  also have "\<dots> = S * ?p1 * sqrt T"
    by (simp only: id [symmetric]) (simp add: algebra_simps)
  finally have call': "((\<lambda>v. premium v S K T r 0) has_real_derivative S * ?p1 * sqrt T) (at \<sigma>)"
    using call by simp
  show ?thesis
  proof (cases "mode = 0")
    case True
    with call' show ?thesis by simp
  next
    case False
    have "((\<lambda>v. K * exp (- (r * T)) - S + premium v S K T r 0) has_real_derivative
             0 + S * ?p1 * sqrt T) (at \<sigma>)"
      by (intro DERIV_add DERIV_const call')
    moreover have "(\<lambda>v. premium v S K T r mode)
                     = (\<lambda>v. K * exp (- (r * T)) - S + premium v S K T r 0)"
      using False by (simp add: premium_put)
    ultimately show ?thesis by simp
  qed
qed

text \<open>
  C6. For fixed \<open>S > 0\<close>, \<open>K > 0\<close>, \<open>T > 0\<close>, any \<open>r\<close> and either option type, the premium is
  strictly increasing in \<open>\<sigma>\<close> on \<open>(0, \<infinity>)\<close>: its derivative in \<open>\<sigma>\<close>, vega, is
  \<open>S \<phi>(d1) sqrt T > 0\<close>. (Over the reals; floating-point values of the kernel can
  coincide where the exact ones differ.)
\<close>

theorem premium_strictly_increasing_in_sigma:
  assumes "0 < S" "0 < K" "0 < T" "0 < \<sigma>1" "\<sigma>1 < \<sigma>2"
  shows "premium \<sigma>1 S K T r mode < premium \<sigma>2 S K T r mode"
proof (rule DERIV_pos_imp_increasing [OF assms(5)])
  fix v assume "\<sigma>1 \<le> v" "v \<le> \<sigma>2"
  then have v: "0 < v" using assms(4) by simp
  have "0 < S * std_normal_pdf (spec_d1 v S K T r) * sqrt T"
    using assms std_normal_pdf_pos by simp
  then show "\<exists>y. ((\<lambda>v. premium v S K T r mode) has_real_derivative y) (at v) \<and> 0 < y"
    using DERIV_premium_sigma [OF v assms(1-3)] by blast
qed

theorem premium_strictly_increasing_in_sigma_witness:
  "(0::real) < 100 \<and> (0::real) < 1 \<and> (0::real) < 1 / 5 \<and> (1 / 5 :: real) < 3 / 10
   \<and> premium (1 / 5) 100 100 1 (1 / 20) 1 < premium (3 / 10) 100 100 1 (1 / 20) 1"
  using premium_strictly_increasing_in_sigma [of 100 100 1 "1 / 5" "3 / 10" "1 / 20" 1]
  by simp

section \<open>Properties of binary32 rounding\<close>

lemma round_half_even_of_int [simp]: "round_half_even (of_int n) = n"
  unfolding round_half_even_def Let_def by simp

lemma round_half_even_ge: "of_int n \<le> y \<Longrightarrow> n \<le> round_half_even y"
proof -
  assume "of_int n \<le> y"
  then have "n \<le> \<lfloor>y\<rfloor>" by (simp add: le_floor_iff)
  then show ?thesis by (auto simp: round_half_even_def Let_def)
qed

lemma round_half_even_le: "y \<le> of_int n \<Longrightarrow> round_half_even y \<le> n"
proof -
  assume le: "y \<le> of_int n"
  show ?thesis
  proof (cases "y = of_int n")
    case True
    then show ?thesis by simp
  next
    case False
    with le have "y < of_int n" by simp
    then have "\<lfloor>y\<rfloor> < n" by (simp add: floor_less_iff)
    then show ?thesis by (auto simp: round_half_even_def Let_def)
  qed
qed

lemma floor_log2_eq:
  assumes "2 powi k \<le> x" "x < 2 powi (k + 1)"
  shows "\<lfloor>log 2 x\<rfloor> = k"
proof -
  have "0 < x" using assms(1) by (meson zero_less_power_int less_le_trans zero_less_numeral)
  moreover have "2 powr (real_of_int k) = (2::real) powi k"
    by (simp add: powr_real_of_int')
  moreover have "2 powr (real_of_int k + 1) = (2::real) powi (k + 1)"
    using powr_real_of_int' [of 2 "k + 1"] by simp
  ultimately show ?thesis
    using assms floor_log_eq_powr_iff [of x 2 k] by simp
qed

lemma floor_log2_bounds:
  assumes "0 < x"
  shows "2 powi \<lfloor>log 2 x\<rfloor> \<le> x" "x < 2 powi (\<lfloor>log 2 x\<rfloor> + 1)"
proof -
  have a: "2 powr (real_of_int \<lfloor>log 2 x\<rfloor>) = (2::real) powi \<lfloor>log 2 x\<rfloor>"
    by (simp add: powr_real_of_int')
  have b: "2 powr (real_of_int \<lfloor>log 2 x\<rfloor> + 1) = (2::real) powi (\<lfloor>log 2 x\<rfloor> + 1)"
    using powr_real_of_int' [of 2 "\<lfloor>log 2 x\<rfloor> + 1"] by simp
  have "2 powr (real_of_int \<lfloor>log 2 x\<rfloor>) \<le> x \<and> x < 2 powr (real_of_int \<lfloor>log 2 x\<rfloor> + 1)"
    using floor_log_eq_powr_iff [of x 2 "\<lfloor>log 2 x\<rfloor>"] assms by simp
  then show "2 powi \<lfloor>log 2 x\<rfloor> \<le> x" "x < 2 powi (\<lfloor>log 2 x\<rfloor> + 1)"
    by (simp_all add: a b)
qed

lemma pow2_le_iff: "(2::real) powi k \<le> 2 powi m \<longleftrightarrow> k \<le> m"
proof
  assume le: "(2::real) powi k \<le> 2 powi m"
  show "k \<le> m"
  proof (rule ccontr)
    assume "\<not> k \<le> m"
    then have "(2::real) powi m < 2 powi k"
      by (intro power_int_strict_increasing) auto
    with le show False by simp
  qed
next
  assume "k \<le> m"
  then show "(2::real) powi k \<le> 2 powi m"
    by (intro power_int_increasing) auto
qed

lemma pow2_split: "x / (2::real) powi e = x * 2 powi (- e)"
  by (simp add: power_int_minus field_simps)

lemma round_to_binary32_exact:
  assumes "2 powi k \<le> \<bar>x\<bar>" "\<bar>x\<bar> < 2 powi (k + 1)" "- 126 \<le> k"
    and "x / 2 powi (k - 23) = of_int n"
  shows "round_to_binary32 x = x"
proof -
  have nz: "x \<noteq> 0"
    using assms(1) by (smt (verit) zero_less_power_int abs_zero)
  have "\<lfloor>log 2 \<bar>x\<bar>\<rfloor> = k"
    by (rule floor_log2_eq [OF assms(1) assms(2)])
  then have e: "max \<lfloor>log 2 \<bar>x\<bar>\<rfloor> (- 126) - 23 = k - 23"
    using assms(3) by simp
  have "of_int n * 2 powi (k - 23) = x"
    using assms(4) by (simp add: field_simps)
  then show ?thesis
    using nz by (simp add: round_to_binary32_def e assms(4) Let_def)
qed

lemma round_to_binary32_pos:
  assumes "0 < x"
  shows "round_to_binary32 x =
           of_int (round_half_even (x / 2 powi (max \<lfloor>log 2 x\<rfloor> (- 126) - 23)))
             * 2 powi (max \<lfloor>log 2 x\<rfloor> (- 126) - 23)"
  using assms by (simp add: round_to_binary32_def Let_def)

lemma round_to_binary32_ge:
  assumes "2 powi k \<le> x" "- 126 \<le> k"
  shows "2 powi k \<le> round_to_binary32 x"
proof -
  have pos: "0 < x"
    using assms(1) by (smt (verit) zero_less_power_int)
  define j where "j = \<lfloor>log 2 x\<rfloor>"
  have j: "2 powi j \<le> x" "x < 2 powi (j + 1)"
    using floor_log2_bounds [OF pos] by (simp_all add: j_def)
  have "(2::real) powi k < 2 powi (j + 1)"
    using assms(1) j(2) by simp
  then have kj: "k \<le> j"
    using pow2_le_iff [of "j + 1" k] by (simp add: not_le [symmetric])
  then have e: "max j (- 126) - 23 = j - 23"
    using assms(2) by simp
  have p: "(2::real) ^ 23 * 2 powi (j - 23) = 2 powi j"
    using power_int_add [of "2::real" 23 "j - 23"] by simp
  have "(2::real) ^ 23 \<le> x / 2 powi (j - 23)"
    using j(1) p by (simp add: field_simps)
  then have "of_int (2 ^ 23) \<le> x / 2 powi (j - 23)"
    by simp
  then have "2 ^ 23 \<le> round_half_even (x / 2 powi (j - 23))"
    by (rule round_half_even_ge)
  then have "(2::real) ^ 23 \<le> of_int (round_half_even (x / 2 powi (j - 23)))"
    by (metis of_int_le_iff of_int_numeral of_int_power)
  then have "(2::real) ^ 23 * 2 powi (j - 23)
               \<le> of_int (round_half_even (x / 2 powi (j - 23))) * 2 powi (j - 23)"
    by (intro mult_right_mono) auto
  then have "2 powi j \<le> round_to_binary32 x"
    unfolding p round_to_binary32_pos [OF pos] j_def [symmetric] e .
  moreover have "(2::real) powi k \<le> 2 powi j"
    using kj by (simp add: pow2_le_iff)
  ultimately show ?thesis
    by simp
qed

lemma round_to_binary32_le:
  assumes "0 < x" "x \<le> 2 powi m" "- 126 \<le> m"
  shows "round_to_binary32 x \<le> 2 powi m"
proof -
  define j where "j = \<lfloor>log 2 x\<rfloor>"
  define e where "e = max j (- 126) - 23"
  have j: "2 powi j \<le> x" "x < 2 powi (j + 1)"
    using floor_log2_bounds [OF assms(1)] by (simp_all add: j_def)
  have "(2::real) powi j \<le> 2 powi m"
    using j(1) assms(2) by simp
  then have "j \<le> m"
    by (simp add: pow2_le_iff)
  then have em: "0 \<le> m - e"
    using assms(3) by (simp add: e_def)
  have p: "(2::real) ^ nat (m - e) * 2 powi e = 2 powi m"
    using power_int_add [of "2::real" "m - e" e] em by (simp add: power_int_def)
  have "x / 2 powi e \<le> 2 ^ nat (m - e)"
    using assms(2) p by (simp add: field_simps)
  then have "x / 2 powi e \<le> of_int (2 ^ nat (m - e))"
    by simp
  then have "round_half_even (x / 2 powi e) \<le> 2 ^ nat (m - e)"
    by (rule round_half_even_le)
  then have "of_int (round_half_even (x / 2 powi e)) \<le> (2::real) ^ nat (m - e)"
    by (metis of_int_le_iff of_int_numeral of_int_power)
  then have "of_int (round_half_even (x / 2 powi e)) * 2 powi e
               \<le> (2::real) ^ nat (m - e) * 2 powi e"
    by (intro mult_right_mono) auto
  then show ?thesis
    unfolding p round_to_binary32_pos [OF assms(1)] j_def [symmetric] e_def [symmetric] .
qed

lemma f32_of_real_between:
  assumes "2 powi k \<le> x" "x \<le> 2 powi m" "- 126 \<le> k" "m \<le> 127"
  shows "\<exists>y. f32_of_real x = Fin y \<and> 2 powi k \<le> y \<and> y \<le> 2 powi m"
proof -
  have pos: "0 < x"
    using assms(1) by (smt (verit) zero_less_power_int)
  have "(2::real) powi k \<le> 2 powi m"
    using assms(1,2) by simp
  then have km: "k \<le> m"
    by (simp add: pow2_le_iff)
  have lo: "2 powi k \<le> round_to_binary32 x"
    by (rule round_to_binary32_ge [OF assms(1) assms(3)])
  have hi: "round_to_binary32 x \<le> 2 powi m"
    using km assms(3) by (intro round_to_binary32_le [OF pos assms(2)]) simp
  have "(2::real) powi m < 2 powi 128"
    using assms(4) by (intro power_int_strict_increasing) auto
  then have "(2::real) powi m < 2 ^ 128"
    by (simp add: power_int_def)
  with hi have lt: "round_to_binary32 x < 2 ^ 128"
    by simp
  have "0 < round_to_binary32 x"
    using lo by (smt (verit) zero_less_power_int)
  then show ?thesis
    using lo hi lt by (simp add: f32_of_real_def Let_def)
qed

lemma f32_of_real_pow2:
  assumes "- 126 \<le> k" "k \<le> 127"
  shows "f32_of_real (2 powi k) = Fin (2 powi k)"
  using f32_of_real_between [of k "2 powi k" k] assms by auto

lemma f32_of_real_0 [simp]: "f32_of_real 0 = Fin 0"
  by (simp add: f32_of_real_def round_to_binary32_def)

lemma round_to_binary32_rational: "round_to_binary32 x \<in> \<rat>"
  by (simp add: round_to_binary32_def Let_def power_int_def)

lemma f32_of_real_rational: "f32_of_real x = Fin y \<Longrightarrow> y \<in> \<rat>"
  using round_to_binary32_rational [of x]
  by (auto simp: f32_of_real_def Let_def split: if_splits)

lemma f32_add_rational: "f32_add a b = Fin y \<Longrightarrow> y \<in> \<rat>"
  by (cases a; cases b) (auto dest: f32_of_real_rational)

lemma f32_sub_rational: "f32_sub a b = Fin y \<Longrightarrow> y \<in> \<rat>"
  unfolding f32_sub_def by (rule f32_add_rational)

section \<open>The kernel in binary32: saturated prices\<close>

lemma f32_fp_simps:
  "flit f32_fp = (\<lambda>i. f32_of_real (of_int i))" "fadd f32_fp = f32_add" "fsub f32_fp = f32_sub"
  "fmul f32_fp = f32_mul" "fdiv f32_fp = f32_div" "fneg f32_fp = f32_neg" "fpow f32_fp = f32_pow"
  "flog f32_fp = f32_log" "fsqrt f32_fp = f32_sqrt" "fexp f32_fp = f32_exp" "fcdf f32_fp = f32_cdf"
  "fround f32_fp = f32_round"
  by (simp_all add: f32_fp_def)

lemma f32_of_real_1 [simp]: "f32_of_real 1 = Fin 1"
  using f32_of_real_pow2 [of 0] by simp

lemma f32_of_real_2 [simp]: "f32_of_real 2 = Fin 2"
  using f32_of_real_pow2 [of 1] by simp

lemma f32_of_real_16 [simp]: "f32_of_real 16 = Fin 16"
  using f32_of_real_pow2 [of 4] by (simp add: power_int_def)

lemma f32_of_real_15 [simp]: "f32_of_real 15 = Fin 15"
proof -
  have "round_to_binary32 15 = 15"
    by (rule round_to_binary32_exact [of 3 _ "15 * 2 ^ 20"]) (simp_all add: power_int_def power_one_over)
  then show ?thesis
    by (simp add: f32_of_real_def)
qed

lemma ln_16_bounds: "2 \<le> ln (16::real)" "ln (16::real) \<le> 4"
proof -
  have e2: "2 \<le> exp (1::real)"
    using exp_ge_add_one_self [of "1::real"] by simp
  have "exp (2::real) = exp 1 * exp 1"
    by (simp flip: exp_add)
  also have "\<dots> \<le> 3 * 3"
    by (intro mult_mono exp_le) auto
  finally have "exp (2::real) \<le> 16" by simp
  then show "2 \<le> ln (16::real)"
    by (simp add: ln_ge_iff)
  have "(2::real) ^ 4 \<le> exp 1 ^ 4"
    by (intro power_mono e2) auto
  also have "\<dots> = exp (4::real)"
    using exp_of_nat_mult [of 4 "1::real"] by simp
  finally have "16 \<le> exp (4::real)" by simp
  then have "ln (16::real) \<le> ln (exp 4)"
    by (subst ln_le_cancel_iff) simp_all
  then show "ln (16::real) \<le> 4"
    by simp
qed

lemma saturated_call:
  assumes s: "s = 5 \<or> s = 6"
  shows "black_scholes f32_fp (Fin (2 powi (- s))) (Fin 16) (Fin 1) (Fin 1) (Fin 0) 0 = Inr (Fin 15)"
proof -
  let ?\<sigma> = "Fin (2 powi (- s))"
  have sq: "f32_pow ?\<sigma> 2 = Fin (2 powi (- 2 * s))"
  proof -
    have "(2::real) powi (- s) * 2 powi (- s) = 2 powi (- 2 * s)"
      by (simp flip: power_int_add)
    then show ?thesis
      using s f32_of_real_pow2 [of "- 2 * s"] by (auto simp: numeral_2_eq_2)
  qed
  have half: "f32_div (Fin (2 powi (- 2 * s))) (Fin 2) = Fin (2 powi (- 2 * s - 1))"
  proof -
    have "(2::real) powi (- 2 * s) / 2 = 2 powi (- 2 * s - 1)"
      by (simp add: power_int_diff)
    then show ?thesis
      using s f32_of_real_pow2 [of "- 2 * s - 1"] by auto
  qed
  have c: "f32_mul (f32_add (Fin 0) (Fin (2 powi (- 2 * s - 1)))) (Fin 1) = Fin (2 powi (- 2 * s - 1))"
    using s f32_of_real_pow2 [of "- 2 * s - 1"] by auto
  obtain l where l: "f32_log (f32_div (Fin 16) (Fin 1)) = Fin l" "2 powi 1 \<le> l" "l \<le> 2 powi 2"
    using f32_of_real_between [of 1 "ln 16" 2] ln_16_bounds by auto
  have cb: "0 \<le> (2::real) powi (- 2 * s - 1)" "(2::real) powi (- 2 * s - 1) \<le> 2 powi 2"
    by (simp_all add: pow2_le_iff s) (use s in auto)
  obtain n where n: "f32_add (Fin l) (Fin (2 powi (- 2 * s - 1))) = Fin n" "2 powi 1 \<le> n" "n \<le> 2 powi 3"
  proof -
    have "2 powi 1 \<le> l + 2 powi (- 2 * s - 1)" "l + 2 powi (- 2 * s - 1) \<le> 2 powi 3"
      using l(2,3) cb by (simp_all add: power_int_def)
    then show ?thesis
      using f32_of_real_between [of 1 "l + 2 powi (- 2 * s - 1)" 3] that by auto
  qed
  have den: "f32_mul ?\<sigma> (f32_sqrt (Fin 1)) = ?\<sigma>"
    using s f32_of_real_pow2 [of "- s"] by auto
  have snz: "(2::real) powi (- s) \<noteq> 0"
    by simp
  obtain d where d: "f32_div (Fin n) ?\<sigma> = Fin d" "2 powi (1 + s) \<le> d" "d \<le> 2 powi (3 + s)"
  proof -
    have eq: "n / 2 powi (- s) = n * 2 powi s"
      by (simp add: power_int_minus field_simps)
    have "2 powi 1 * 2 powi s \<le> n * 2 powi s" "n * 2 powi s \<le> 2 powi 3 * 2 powi s"
      using n(2,3) by (auto intro!: mult_right_mono)
    then have "2 powi (1 + s) \<le> n * 2 powi s" "n * 2 powi s \<le> 2 powi (3 + s)"
      by (simp_all add: power_int_add)
    then show ?thesis
      using f32_of_real_between [of "1 + s" "n * 2 powi s" "3 + s"] that s snz eq by auto
  qed
  obtain d' where d': "f32_sub (Fin d) ?\<sigma> = Fin d'" "2 powi s \<le> d'"
  proof -
    have "(2::real) powi (- s) \<le> 2 powi s"
      using s by (auto simp: pow2_le_iff)
    moreover have "(2::real) powi (1 + s) = 2 powi s + 2 powi s"
      by (simp add: power_int_add)
    ultimately have "2 powi s \<le> d - 2 powi (- s)"
      using d(2) by simp
    moreover have "d - 2 powi (- s) \<le> 2 powi (3 + s)"
      using d(3) by (smt (verit) zero_less_power_int)
    ultimately show ?thesis
      using f32_of_real_between [of s "d - 2 powi (- s)" "3 + s"] that s
      by (auto simp: f32_sub_def)
  qed
  have "(16::real) \<le> 2 powi s"
    using s by (auto simp: power_int_def)
  then have sat: "f32_cdf (Fin d') = Fin 1"
    using d'(2) by simp
  have "(16::real) \<le> 2 powi (1 + s)"
    using s by (auto simp: power_int_def)
  then have sat1: "f32_cdf (Fin d) = Fin 1"
    using d(2) by simp
  have lit2: "f32_of_real (of_int 2) = Fin 2"
    by simp
  have d1: "bs_d1 f32_fp ?\<sigma> (Fin 16) (Fin 1) (Fin 1) (Fin 0) = Fin d"
    by (simp only: bs_d1_def f32_fp_simps sq lit2 half c l(1) n(1) den d(1))
  have d2: "bs_d2 f32_fp ?\<sigma> (Fin 16) (Fin 1) (Fin 1) (Fin 0) = Fin d'"
    by (simp only: bs_d2_def d1 f32_fp_simps den d'(1))
  show ?thesis
    by (simp only: black_scholes_unfold Let_def d1 d2 f32_fp_simps sat sat1)
       (simp add: f32_sub_def)
qed

lemma tie_64: "black_scholes f32_fp (Fin (1 / 64)) (Fin 16) (Fin 1) (Fin 1) (Fin 0) 0 = Inr (Fin 15)"
  using saturated_call [of 6] by (simp add: power_int_def power_one_over)

lemma tie_32: "black_scholes f32_fp (Fin (1 / 32)) (Fin 16) (Fin 1) (Fin 1) (Fin 0) 0 = Inr (Fin 15)"
  using saturated_call [of 5] by (simp add: power_int_def power_one_over)

section \<open>Irrationality of \<open>e^(1/n)\<close>\<close>

lemma exp_inverse_nat_irrational:
  assumes n: "0 < n"
  shows "exp (1 / real n) \<notin> \<rat>"
proof
  assume "exp (1 / real n) \<in> \<rat>"
  then obtain a b :: nat where b: "b \<noteq> 0" and ab: "\<bar>exp (1 / real n)\<bar> = real a / real b"
    by (rule Rats_abs_nat_div_natE)
  define N where "N = b + 2"
  define F :: real where "F = fact N * real n ^ N"
  have Fpos: "0 < F"
    using n by (simp add: F_def)
  obtain t where t: "\<bar>t\<bar> < \<bar>1 / real n\<bar>"
    and ex: "exp (1 / real n) = (\<Sum>m<Suc N. (1 / real n) ^ m / fact m)
               + exp t / fact (Suc N) * (1 / real n) ^ Suc N"
    using Maclaurin_exp_lt [of "1 / real n" "Suc N"] n by auto
  define \<theta> where "\<theta> = exp t / (real (Suc N) * real n)"
  have rem: "F * (exp t / fact (Suc N) * (1 / real n) ^ Suc N) = \<theta>"
  proof -
    have f1: "(fact (Suc N) :: real) = real (Suc N) * fact N"
      by (simp del: of_nat_Suc)
    have f2: "(1 / real n) ^ Suc N = 1 / (real n * real n ^ N)"
      by (simp add: power_one_over)
    have nz: "(fact N :: real) \<noteq> 0" "real n ^ N \<noteq> 0" "real n \<noteq> 0" "real (Suc N) \<noteq> 0"
      using n by simp_all
    show ?thesis
      unfolding F_def \<theta>_def f1 f2 using nz by (simp add: divide_simps del: of_nat_Suc)
  qed
  have int_sum: "F * (\<Sum>m<Suc N. (1 / real n) ^ m / fact m) \<in> \<int>"
  proof -
    have "F * ((1 / real n) ^ m / fact m) \<in> \<int>" if "m < Suc N" for m
    proof -
      have mN: "m \<le> N" using that by simp
      have "(fact m :: nat) dvd fact N"
        by (rule fact_dvd [OF mN])
      then have q1: "fact N / fact m = real (fact N div fact m)"
        by (simp add: real_of_nat_div)
      have q2: "real n ^ N * (1 / real n) ^ m = real n ^ (N - m)"
        using n mN by (simp add: power_one_over power_diff field_simps)
      have "F * ((1 / real n) ^ m / fact m)
              = (fact N / fact m) * (real n ^ N * (1 / real n) ^ m)"
        by (simp add: F_def)
      also have "\<dots> = real (fact N div fact m) * real n ^ (N - m)"
        by (simp only: q1 q2)
      finally have "F * ((1 / real n) ^ m / fact m) = real (fact N div fact m) * real n ^ (N - m)" .
      also have "\<dots> = of_nat ((fact N div fact m) * n ^ (N - m))"
        by simp
      finally show ?thesis
        using Ints_of_nat by metis
    qed
    then have "(\<Sum>m<Suc N. F * ((1 / real n) ^ m / fact m)) \<in> \<int>"
      by (intro Ints_sum) simp
    then show ?thesis
      by (simp only: sum_distrib_left)
  qed
  have int_lhs: "F * exp (1 / real n) \<in> \<int>"
  proof -
    have "b dvd fact N"
      using b by (intro dvd_fact) (simp_all add: N_def)
    then have q1: "fact N / real b = real (fact N div b)"
      by (simp add: real_of_nat_div)
    have "exp (1 / real n) = real a / real b"
      using ab by simp
    then have "F * exp (1 / real n) = (fact N / real b) * real n ^ N * real a"
      by (simp add: F_def)
    also have "\<dots> = real (fact N div b) * real n ^ N * real a"
      by (simp only: q1)
    finally have "F * exp (1 / real n) = real (fact N div b) * real n ^ N * real a" .
    also have "\<dots> = of_nat ((fact N div b) * n ^ N * a)"
      by simp
    finally show ?thesis
      using Ints_of_nat by metis
  qed
  have "\<theta> = F * exp (1 / real n) - F * (\<Sum>m<Suc N. (1 / real n) ^ m / fact m)"
    using rem ex by (simp add: algebra_simps)
  then have "\<theta> \<in> \<int>"
    using int_lhs int_sum by simp
  moreover have "0 < \<theta>"
    using n by (simp add: \<theta>_def)
  moreover have "\<theta> < 1"
  proof -
    have "t < 1 / real n"
      using t by simp
    also have "\<dots> \<le> 1"
      using n by simp
    finally have "exp t < exp 1"
      by (simp only: exp_less_cancel_iff)
    also have "exp (1::real) \<le> 3"
      by (rule exp_le)
    finally have "exp t < 3" .
    moreover have "3 \<le> real (Suc N) * real n"
    proof -
      have "3 * 1 \<le> real (Suc N) * real n"
        using n by (intro mult_mono) (simp_all add: N_def)
      then show ?thesis by simp
    qed
    ultimately show ?thesis
      using n by (simp add: \<theta>_def)
  qed
  ultimately show False
    using Ints_nonzero_abs_less1 [of \<theta>] by auto
qed

lemma parity_rhs_irrational: "100 - 100 * exp (- (1 / 16 * 1) :: real) \<notin> \<rat>"
proof
  assume a: "100 - 100 * exp (- (1 / 16 * 1) :: real) \<in> \<rat>"
  have "(100::real) \<in> \<rat>"
    by simp
  then have "100 - (100 - 100 * exp (- (1 / 16 * 1) :: real)) \<in> \<rat>"
    using a by (rule Rats_diff)
  then have "(100 - (100 - 100 * exp (- (1 / 16 * 1) :: real))) / 100 \<in> \<rat>"
    by (rule Rats_divide) simp
  then have "exp (- (1 / 16) :: real) \<in> \<rat>"
    by simp
  then have "inverse (exp (- (1 / 16) :: real)) \<in> \<rat>"
    by (rule Rats_inverse)
  then have "exp (1 / real 16) \<in> \<rat>"
    by (simp add: exp_minus)
  then show False
    using exp_inverse_nat_irrational [of 16] by simp
qed

end
